theory Spec2Isabelle
  imports Main "HOL-Library.Word" "HOL-Library.Sublist"
begin

section \<open>JavaScript strings\<close>

text \<open>
  A JavaScript string is a sequence of UTF-16 code units. \<open>length\<close>, \<open>slice\<close>,
  \<open>includes\<close> and the regular expressions of \<^verbatim>\<open>src/index.js\<close> (none has the
  \<^verbatim>\<open>u\<close> flag) all work on code units, so a string is a list of 16-bit words.
  \<open>js\<close> writes an ASCII literal of the source as such a list.
\<close>

type_synonym jschar = "16 word"
type_synonym jsstring = "jschar list"

definition js :: "string \<Rightarrow> jsstring" where
  "js s = map of_char s"

text \<open>
  The class \<^verbatim>\<open>\s\<close> of a JavaScript regular expression, which is also the set that
  \<^verbatim>\<open>String.prototype.trim\<close> removes: WhiteSpace (TAB, VT, FF, SP, NBSP, ZWNBSP and the
  Unicode space separators) and LineTerminator (LF, CR, LS, PS).
\<close>

definition is_line_terminator :: "jschar \<Rightarrow> bool" where
  "is_line_terminator c = (c = 0x000A \<or> c = 0x000D \<or> c = 0x2028 \<or> c = 0x2029)"

definition is_space :: "jschar \<Rightarrow> bool" where
  "is_space c =
     (c = 0x0009 \<or> c = 0x000B \<or> c = 0x000C \<or> c = 0x0020 \<or> c = 0x00A0 \<or> c = 0xFEFF
      \<or> c = 0x1680 \<or> (0x2000 \<le> c \<and> c \<le> 0x200A) \<or> c = 0x202F \<or> c = 0x205F
      \<or> c = 0x3000 \<or> is_line_terminator c)"

text \<open>
  With the \<^verbatim>\<open>i\<close> flag and without \<^verbatim>\<open>u\<close>, a pattern character and an input
  code unit match when their canonical forms (\<^verbatim>\<open>toUpperCase\<close> of the single code unit)
  are equal, and a code unit above 127 is never canonicalised to one below 128. Every
  pattern character of the source is ASCII, so against such a pattern the canonical form
  is the ASCII upper-casing below.
\<close>

definition ascii_upper :: "jschar \<Rightarrow> jschar" where
  "ascii_upper c = (if 0x61 \<le> c \<and> c \<le> 0x7A then c - 0x20 else c)"

definition eq_ci :: "jschar \<Rightarrow> jschar \<Rightarrow> bool" where
  "eq_ci p c = (ascii_upper p = ascii_upper c)"

text \<open>\<^verbatim>\<open>s.includes(sub)\<close>: \<open>sub\<close> occurs in \<open>s\<close> as a contiguous run (case-sensitive).\<close>

fun includes_str :: "jsstring \<Rightarrow> jsstring \<Rightarrow> bool" where
  "includes_str [] sub = (sub = [])"
| "includes_str (c # cs) sub = (prefix sub (c # cs) \<or> includes_str cs sub)"

text \<open>\<^verbatim>\<open>xs.join(sep)\<close>.\<close>

fun join :: "jsstring \<Rightarrow> jsstring list \<Rightarrow> jsstring" where
  "join sep [] = []"
| "join sep [x] = x"
| "join sep (x # y # ys) = x @ sep @ join sep (y # ys)"

text \<open>\<^verbatim>\<open>s.trim()\<close>: the white space at both ends is removed.\<close>

definition trim :: "jsstring \<Rightarrow> jsstring" where
  "trim s = rev (dropWhile is_space (rev (dropWhile is_space s)))"

text \<open>
  \<^verbatim>\<open>s.replace(/\s+/g, " ")\<close>: every maximal run of white space becomes one space.
\<close>

function collapse_ws :: "jsstring \<Rightarrow> jsstring" where
  "collapse_ws [] = []"
| "collapse_ws (c # cs) =
     (if is_space c then 0x20 # collapse_ws (dropWhile is_space cs)
      else c # collapse_ws cs)"
  by pat_completeness auto
termination
  by (relation "measure length") (auto simp: length_dropWhile_le less_Suc_eq_le)

text \<open>
  \<^verbatim>\<open>s.replace(/<[^>]*>/g, "")\<close>: at a \<^verbatim>\<open><\<close> the greedy class runs to the next
  \<^verbatim>\<open>>\<close>; the tag up to and including it is removed and the scan goes on behind it.
  A \<^verbatim>\<open><\<close> with no \<^verbatim>\<open>>\<close> behind it does not match and stays.
\<close>

definition after_gt :: "jsstring \<Rightarrow> jsstring option" where
  "after_gt cs = (case dropWhile (\<lambda>c. c \<noteq> 0x3E) cs of [] \<Rightarrow> None | _ # r \<Rightarrow> Some r)"

function strip_tags :: "jsstring \<Rightarrow> jsstring" where
  "strip_tags [] = []"
| "strip_tags (c # cs) =
     (if c = 0x3C then (case after_gt cs of None \<Rightarrow> c # strip_tags cs | Some r \<Rightarrow> strip_tags r)
      else c # strip_tags cs)"
  by pat_completeness auto
termination
proof (relation "measure length")
  show "wf (measure (length :: jsstring \<Rightarrow> nat))" by simp
next
  fix c :: jschar and cs r :: jsstring
  assume "after_gt cs = Some r"
  then obtain x where "dropWhile (\<lambda>c. c \<noteq> 0x3E) cs = x # r"
    by (auto simp: after_gt_def split: list.splits)
  then have "length (x # r) \<le> length cs"
    using length_dropWhile_le [of "\<lambda>c. c \<noteq> 0x3E" cs] by simp
  then show "(r, c # cs) \<in> measure length" by simp
qed simp_all

section \<open>Regular-expression matching as the source uses it\<close>

text \<open>
  \<^verbatim>\<open>text.match(re)\<close> with a regular expression without the \<^verbatim>\<open>g\<close> flag tries the
  pattern at start position 0, 1, 2, ... and returns the first success. \<open>first_match m s\<close>
  does this for a matcher \<open>m\<close> of the pattern at the head of its argument; the value is
  capture group 1 of the match.
\<close>

fun first_match :: "(jsstring \<Rightarrow> jsstring option) \<Rightarrow> jsstring \<Rightarrow> jsstring option" where
  "first_match m [] = m []"
| "first_match m (c # cs) =
     (case m (c # cs) of Some r \<Rightarrow> Some r | None \<Rightarrow> first_match m cs)"

text \<open>A literal of the pattern, matched case-insensitively; the value is the rest of the input.\<close>

fun literal_ci :: "jsstring \<Rightarrow> jsstring \<Rightarrow> jsstring option" where
  "literal_ci [] s = Some s"
| "literal_ci (p # ps) [] = None"
| "literal_ci (p # ps) (c # cs) = (if eq_ci p c then literal_ci ps cs else None)"

text \<open>
  \<^verbatim>\<open>/TITLE:\s*(.*)/i\<close> and \<^verbatim>\<open>/DESCRIPTION:\s*(.*)/i\<close> at one start position: the marker,
  then the greedy \<^verbatim>\<open>\s*\<close> takes all the white space there is (line breaks too), then
  the greedy \<^verbatim>\<open>.*\<close> takes everything up to the next line terminator. Nothing follows
  in the pattern, so the first (greedy) choice already succeeds and no backtracking occurs.
\<close>

definition line_field :: "jsstring \<Rightarrow> jsstring \<Rightarrow> jsstring option" where
  "line_field marker s =
     map_option (\<lambda>r. takeWhile (\<lambda>c. \<not> is_line_terminator c) (dropWhile is_space r))
       (literal_ci marker s)"

text \<open>\<^verbatim>\<open>/CONTENT:\s*([\s\S]*)/i\<close> at one start position: the group takes all that remains.\<close>

definition rest_field :: "jsstring \<Rightarrow> jsstring \<Rightarrow> jsstring option" where
  "rest_field marker s = map_option (dropWhile is_space) (literal_ci marker s)"

text \<open>
  The lazy group \<^verbatim>\<open>([\s\S]*?)\<close> followed by a closing tag: the group grows one code unit
  at a time until the closing tag matches right behind it.
\<close>

fun lazy_until :: "(jsstring \<Rightarrow> bool) \<Rightarrow> jsstring \<Rightarrow> jsstring option" where
  "lazy_until closes [] = (if closes [] then Some [] else None)"
| "lazy_until closes (c # cs) =
     (if closes (c # cs) then Some [] else map_option ((#) c) (lazy_until closes cs))"

text \<open>
  \<^verbatim>\<open>/<h[1-2][^>]*>([\s\S]*?)<\/h[1-2]>/i\<close> at one start position. The greedy
  \<^verbatim>\<open>[^>]*\<close> must stop right before the first \<^verbatim>\<open>>\<close> behind the tag name: any shorter
  choice leaves a code unit other than \<^verbatim>\<open>>\<close> where the pattern wants \<^verbatim>\<open>>\<close>.
\<close>

definition is_h_digit :: "jschar \<Rightarrow> bool" where
  "is_h_digit c = (c = 0x31 \<or> c = 0x32)"

definition heading_close :: "jsstring \<Rightarrow> bool" where
  "heading_close s =
     (case literal_ci (js ''</h'') s of
        Some (d # g # _) \<Rightarrow> is_h_digit d \<and> g = 0x3E
      | _ \<Rightarrow> False)"

definition heading_at :: "jsstring \<Rightarrow> jsstring option" where
  "heading_at s =
     (case literal_ci (js ''<h'') s of
        Some (d # r) \<Rightarrow>
          (if is_h_digit d
           then (case after_gt r of None \<Rightarrow> None | Some body \<Rightarrow> lazy_until heading_close body)
           else None)
      | _ \<Rightarrow> None)"

text \<open>\<^verbatim>\<open>/<p[^>]*>([\s\S]*?)<\/p>/i\<close> at one start position.\<close>

definition para_close :: "jsstring \<Rightarrow> bool" where
  "para_close s = (literal_ci (js ''</p>'') s \<noteq> None)"

definition para_at :: "jsstring \<Rightarrow> jsstring option" where
  "para_at s =
     (case literal_ci (js ''<p'') s of
        Some r \<Rightarrow> (case after_gt r of None \<Rightarrow> None | Some body \<Rightarrow> lazy_until para_close body)
      | None \<Rightarrow> None)"

text \<open>\<^verbatim>\<open>x || d\<close> on strings: the empty string is falsy.\<close>

definition or_else :: "jsstring \<Rightarrow> jsstring \<Rightarrow> jsstring" where
  "or_else x d = (if x = [] then d else x)"

text \<open>\<^verbatim>\<open>m?.[1] || d\<close>: \<open>d\<close> when there is no match and when group 1 is empty.\<close>

definition group_or :: "jsstring option \<Rightarrow> jsstring \<Rightarrow> jsstring" where
  "group_or m d = (case m of None \<Rightarrow> d | Some g \<Rightarrow> or_else g d)"

section \<open>The collaborators and the calls made to them\<close>

text \<open>
  The content store, the search provider, the page fetcher with the HTML parser behind
  it, and the inference service are outside the program. A run is modelled against an
  environment that fixes what each of them answers; a rejected promise or a thrown
  exception is \<open>Inl\<close>. Every call to a collaborator is recorded as an event, in the order
  in which the calls are issued. Log lines are not modelled.
\<close>

datatype error = TransportError | BadStatus nat | Timeout | InferenceError | TypeError

record article =
  art_id :: int
  art_title :: jsstring
  art_content :: jsstring

text \<open>
  What \<^verbatim>\<open>cheerio\<close> yields on a fetched document for the three selectors
  \<^verbatim>\<open>$("article").text()\<close>, \<^verbatim>\<open>$("main").text()\<close>, \<^verbatim>\<open>$("body").text()\<close>.
\<close>

record page =
  article_text :: jsstring
  main_text :: jsstring
  body_text :: jsstring

datatype role = System | User

record chat_request =
  model :: jsstring
  messages :: "(role \<times> jsstring) list"
  max_tokens :: nat

text \<open>The object \<^verbatim>\<open>{ title, description, content }\<close> that \<^verbatim>\<open>rewriteWithAI\<close> returns.\<close>

record rewrite_result =
  title :: jsstring
  description :: jsstring
  content :: jsstring

text \<open>The second argument of \<^verbatim>\<open>publishArticle\<close>: a string or such an object.\<close>

datatype ai_data = Raw jsstring | Structured rewrite_result

text \<open>The body of the POST to the content store; \<open>None\<close> is \<^verbatim>\<open>null\<close>.\<close>

record payload =
  p_title :: "jsstring option"
  p_description :: "jsstring option"
  p_content :: jsstring
  p_references :: "jsstring list"

datatype event =
    GetLatest
  | Search jsstring
  | GetPage jsstring
  | Chat chat_request
  | PostAI int payload

text \<open>
  \<open>search\<close> answers with the \<^verbatim>\<open>link\<close> fields of \<^verbatim>\<open>res.data.organic\<close> in the
  provider's order (a response without that array, or with an entry without a string
  \<^verbatim>\<open>link\<close>, makes the body of \<^verbatim>\<open>googleSearch\<close> throw and is an \<open>Inl\<close> here);
  \<open>get_page\<close> answers with the parsed document, and a failed GET (transport error, status
  outside 2xx, timeout after 10 s) or an exception of the parser is an \<open>Inl\<close>;
  \<open>chat\<close> answers with \<^verbatim>\<open>response.choices[0].message.content\<close>.
\<close>

record env =
  latest_article :: "error + article"
  search :: "jsstring \<Rightarrow> error + jsstring list"
  get_page :: "jsstring \<Rightarrow> error + page"
  chat :: "chat_request \<Rightarrow> error + jsstring"
  post_article :: "int \<Rightarrow> payload \<Rightarrow> error + unit"

text \<open>
  An \<^verbatim>\<open>async\<close> function: the calls it issues, and the value it resolves to (\<open>Inr\<close>) or
  the error it rejects with (\<open>Inl\<close>).
\<close>

type_synonym 'a io = "event list \<times> (error + 'a)"

definition return_io :: "'a \<Rightarrow> 'a io" where
  "return_io x = ([], Inr x)"

definition call :: "event \<Rightarrow> error + 'a \<Rightarrow> 'a io" where
  "call ev answer = ([ev], answer)"

definition bind_io :: "'a io \<Rightarrow> ('a \<Rightarrow> 'b io) \<Rightarrow> 'b io" where
  "bind_io m f =
     (case m of
        (es, Inl e) \<Rightarrow> (es, Inl e)
      | (es, Inr x) \<Rightarrow> (case f x of (es', r) \<Rightarrow> (es @ es', r)))"

definition try_catch :: "'a io \<Rightarrow> (error \<Rightarrow> 'a io) \<Rightarrow> 'a io" where
  "try_catch m handler =
     (case m of
        (es, Inl e) \<Rightarrow> (case handler e of (es', r) \<Rightarrow> (es @ es', r))
      | (es, Inr x) \<Rightarrow> (es, Inr x))"

text \<open>
  \<^verbatim>\<open>Promise.all(xs.map(f))\<close>: \<open>f\<close> is called on every element in order, so every call
  is issued; the values come back in the order of \<open>xs\<close>, and a rejection rejects the whole.
\<close>

fun collect_results :: "(error + 'a) list \<Rightarrow> error + 'a list" where
  "collect_results [] = Inr []"
| "collect_results (r # rs) =
     (case r of
        Inl e \<Rightarrow> Inl e
      | Inr x \<Rightarrow> (case collect_results rs of Inl e \<Rightarrow> Inl e | Inr xs \<Rightarrow> Inr (x # xs)))"

definition promise_all :: "'a io list \<Rightarrow> 'a list io" where
  "promise_all ms = (concat (map fst ms), collect_results (map snd ms))"

section \<open>The functions of \<^verbatim>\<open>src/index.js\<close>\<close>

definition isValidBlogLink :: "jsstring \<Rightarrow> bool" where
  "isValidBlogLink url =
     (\<not> includes_str url (js ''wikipedia.org'') \<and>
      \<not> includes_str url (js ''beyondchats.com'') \<and>
      \<not> includes_str url (js ''youtube.com'') \<and>
      \<not> includes_str url (js ''facebook.com'') \<and>
      \<not> includes_str url (js ''linkedin.com''))"

definition fetchLatestArticle :: "env \<Rightarrow> article io" where
  "fetchLatestArticle e = call GetLatest (latest_article e)"

definition googleSearch :: "env \<Rightarrow> jsstring \<Rightarrow> jsstring list io" where
  "googleSearch e t =
     try_catch
       (bind_io (call (Search t) (search e t))
          (\<lambda>organic. return_io (take 2 (filter isValidBlogLink organic))))
       (\<lambda>err. return_io [])"

definition scrapeArticle :: "env \<Rightarrow> jsstring \<Rightarrow> jsstring io" where
  "scrapeArticle e url =
     try_catch
       (bind_io (call (GetPage url) (get_page e url))
          (\<lambda>pg. return_io
             (take 4000 (trim (collapse_ws
                (or_else (or_else (article_text pg) (main_text pg)) (body_text pg)))))))
       (\<lambda>err. return_io [])"

definition system_prompt :: jsstring where
  "system_prompt =
     js ''You are an SEO Expert. Return your response in this exact format:\<newline>TITLE: [New Unique Related Title]\<newline>DESCRIPTION: [New SEO Description]\<newline>CONTENT: [The HTML Article]''"

definition user_prompt :: "jsstring \<Rightarrow> jsstring list \<Rightarrow> jsstring" where
  "user_prompt original urls =
     js ''Rewrite this: '' @ take 800 original @ js ''. Refs: '' @ join (js '', '') urls"

definition rewrite_request :: "jsstring \<Rightarrow> jsstring list \<Rightarrow> chat_request" where
  "rewrite_request original urls =
     \<lparr> model = js ''meta-llama/Llama-3.2-3B-Instruct'',
       messages = [(System, system_prompt), (User, user_prompt original urls)],
       max_tokens = 1500 \<rparr>"

definition default_title :: jsstring where
  "default_title = js ''New Efficiency Insights''"

definition default_description :: jsstring where
  "default_description = js ''Learn how to optimize service platforms.''"

text \<open>Lines 94 to 101: the three fields pulled out of the model's answer.\<close>

definition parse_response :: "jsstring \<Rightarrow> rewrite_result" where
  "parse_response text =
     \<lparr> title = group_or (first_match (line_field (js ''TITLE:'')) text) default_title,
       description =
         group_or (first_match (line_field (js ''DESCRIPTION:'')) text) default_description,
       content = group_or (first_match (rest_field (js ''CONTENT:'')) text) text \<rparr>"

definition rewriteWithAI ::
  "env \<Rightarrow> jsstring \<Rightarrow> jsstring list \<Rightarrow> jsstring list \<Rightarrow> rewrite_result option io" where
  "rewriteWithAI e original refs urls =
     try_catch
       (bind_io (call (Chat (rewrite_request original urls)) (chat e (rewrite_request original urls)))
          (\<lambda>text. return_io (Some (parse_response text))))
       (\<lambda>err. return_io None)"

definition extract_field :: "(jsstring \<Rightarrow> jsstring option) \<Rightarrow> jsstring \<Rightarrow> jsstring option" where
  "extract_field at finalContent =
     map_option (\<lambda>g. trim (strip_tags g)) (first_match at finalContent)"

definition publish_payload :: "ai_data \<Rightarrow> jsstring list \<Rightarrow> payload" where
  "publish_payload aiData refs =
     (let finalContent = (case aiData of Raw s \<Rightarrow> s | Structured r \<Rightarrow> content r);
          extractedTitle = extract_field heading_at finalContent;
          extractedDesc = extract_field para_at finalContent
      in \<lparr> p_title = extractedTitle, p_description = extractedDesc,
           p_content = finalContent, p_references = refs \<rparr>)"

definition publishArticle :: "env \<Rightarrow> int \<Rightarrow> ai_data \<Rightarrow> jsstring list \<Rightarrow> unit io" where
  "publishArticle e i aiData refs =
     call (PostAI i (publish_payload aiData refs))
       (post_article e i (publish_payload aiData refs))"

text \<open>
  How a run of \<^verbatim>\<open>main\<close> ends: at one of its two early returns, behind the publish
  call, or in its \<^verbatim>\<open>catch\<close>.
\<close>

datatype outcome = Published | NotEnoughLinks | GenerationFailed | Fatal error

definition main :: "env \<Rightarrow> outcome io" where
  "main e =
     try_catch
       (bind_io (fetchLatestArticle e) (\<lambda>art.
        bind_io (googleSearch e (art_title art)) (\<lambda>links.
        if length links < 2 then return_io NotEnoughLinks
        else
        bind_io (promise_all (map (scrapeArticle e) links)) (\<lambda>refContents.
        bind_io (rewriteWithAI e (art_content art) refContents links) (\<lambda>aiData.
        (case aiData of
           None \<Rightarrow> return_io GenerationFailed
         | Some d \<Rightarrow>
             if content d = [] then return_io GenerationFailed
             else
             bind_io (publishArticle e (art_id art) (Structured d) links) (\<lambda>_.
             return_io Published)))))))
       (\<lambda>err. return_io (Fatal err))"

text \<open>The calls of each kind in a trace.\<close>

fun scraped :: "event list \<Rightarrow> jsstring list" where
  "scraped [] = []"
| "scraped (GetPage u # es) = u # scraped es"
| "scraped (_ # es) = scraped es"

fun prompted :: "event list \<Rightarrow> chat_request list" where
  "prompted [] = []"
| "prompted (Chat r # es) = r # prompted es"
| "prompted (_ # es) = prompted es"

fun posted :: "event list \<Rightarrow> (int \<times> payload) list" where
  "posted [] = []"
| "posted (PostAI i p # es) = (i, p) # posted es"
| "posted (_ # es) = posted es"

text \<open>No two adjacent white-space code units.\<close>

fun has_ws_run :: "jsstring \<Rightarrow> bool" where
  "has_ws_run (a # b # cs) = ((is_space a \<and> is_space b) \<or> has_ws_run (b # cs))"
| "has_ws_run _ = False"

section \<open>Elements as the scan understands them\<close>

text \<open>
  What it means for a string to contain an \<^verbatim>\<open>h1\<close>/\<^verbatim>\<open>h2\<close> element or a \<^verbatim>\<open>p\<close> element,
  stated on the string alone and not through the matcher: somewhere an opening tag
  (\<^verbatim>\<open><h1\<close>, \<^verbatim>\<open><h2\<close>, resp. \<^verbatim>\<open><p\<close>, in any letter case) begins, somewhere behind its
  name there is a \<^verbatim>\<open>>\<close>, and somewhere behind that a closing tag (\<^verbatim>\<open></h1>\<close>,
  \<^verbatim>\<open></h2>\<close>, resp. \<^verbatim>\<open></p>\<close>) begins. \<open>n\<close> is the length of the opening tag's name part.
\<close>

definition starts_ci :: "jsstring \<Rightarrow> jsstring \<Rightarrow> bool" where
  "starts_ci tag s = prefix tag (map ascii_upper s)"

definition element_occurs ::
  "(jsstring \<Rightarrow> bool) \<Rightarrow> nat \<Rightarrow> (jsstring \<Rightarrow> bool) \<Rightarrow> jsstring \<Rightarrow> bool" where
  "element_occurs opens n closes s =
     list_ex (\<lambda>suf. opens suf \<and>
        list_ex (\<lambda>r. prefix [0x3E] r \<and> list_ex closes (suffixes (tl r)))
          (suffixes (drop n suf)))
       (suffixes s)"

definition has_heading_element :: "jsstring \<Rightarrow> bool" where
  "has_heading_element s =
     element_occurs (\<lambda>x. starts_ci (js ''<H1'') x \<or> starts_ci (js ''<H2'') x) 3
       (\<lambda>x. starts_ci (js ''</H1>'') x \<or> starts_ci (js ''</H2>'') x) s"

definition has_paragraph_element :: "jsstring \<Rightarrow> bool" where
  "has_paragraph_element s =
     element_occurs (starts_ci (js ''<P'')) 2 (starts_ci (js ''</P>'')) s"

section \<open>An example environment\<close>

text \<open>
  The content store holds one article and accepts every POST, the search provider answers
  every query with \<open>organic\<close>, the page fetcher always times out, and the inference
  service answers every request with \<open>answer\<close>.
\<close>

definition example_env :: "jsstring list \<Rightarrow> error + jsstring \<Rightarrow> env" where
  "example_env organic answer =
     \<lparr> latest_article =
         Inr \<lparr> art_id = 7, art_title = js ''Topic'', art_content = js ''Old text'' \<rparr>,
       search = (\<lambda>q. Inr organic),
       get_page = (\<lambda>u. Inl Timeout),
       chat = (\<lambda>r. answer),
       post_article = (\<lambda>i p. Inr ()) \<rparr>"

section \<open>Calls and results of the single functions\<close>

lemmas io_defs = return_io_def call_def bind_io_def try_catch_def

lemma googleSearch_eq:
  "googleSearch e t =
     ([Search t], Inr (case search e t of Inl err \<Rightarrow> [] | Inr organic \<Rightarrow> take 2 (filter isValidBlogLink organic)))"
  by (simp add: googleSearch_def io_defs split: sum.splits)

lemma scrapeArticle_eq:
  "scrapeArticle e url =
     ([GetPage url],
      Inr (case get_page e url of
             Inl err \<Rightarrow> []
           | Inr pg \<Rightarrow> take 4000 (trim (collapse_ws
                (or_else (or_else (article_text pg) (main_text pg)) (body_text pg))))))"
  by (simp add: scrapeArticle_def io_defs split: sum.splits)

lemma rewriteWithAI_eq:
  "rewriteWithAI e original refs urls =
     ([Chat (rewrite_request original urls)],
      Inr (case chat e (rewrite_request original urls) of
             Inl err \<Rightarrow> None
           | Inr text \<Rightarrow> Some (parse_response text)))"
  by (simp add: rewriteWithAI_def io_defs split: sum.splits)

lemma collect_results_Inr: "collect_results (map Inr xs) = Inr xs"
  by (induction xs) simp_all

lemma promise_all_scrape:
  "promise_all (map (scrapeArticle e) links) =
     (map GetPage links, Inr (map (\<lambda>u. projr (snd (scrapeArticle e u))) links))"
proof -
  have "map snd (map (scrapeArticle e) links) = map Inr (map (\<lambda>u. projr (snd (scrapeArticle e u))) links)"
    by (simp add: scrapeArticle_eq)
  moreover have "concat (map fst (map (scrapeArticle e) links)) = map GetPage links"
    by (induction links) (simp_all add: scrapeArticle_eq)
  ultimately show ?thesis
    unfolding promise_all_def by (simp only: collect_results_Inr)
qed

lemma scraped_GetPage [simp]: "scraped (map GetPage us @ es) = us @ scraped es"
  by (induction us) simp_all
lemma prompted_GetPage [simp]: "prompted (map GetPage us @ es) = prompted es"
  by (induction us) simp_all
lemma posted_GetPage [simp]: "posted (map GetPage us @ es) = posted es"
  by (induction us) simp_all

text \<open>
  C7. When the search call succeeds, \<^verbatim>\<open>googleSearch\<close> returns the first two of the
  provider's links that pass \<open>isValidBlogLink\<close>: at most two URLs, each of them passing
  the filter, in the provider's order (a subsequence of the provider's list). The limit is
  the constant 2 of the source.
\<close>
theorem googleSearch_bounded_filtered_ordered:
  "search e t = Inr organic \<Longrightarrow>
     (\<exists>links. snd (googleSearch e t) = Inr links \<and>
        links = take 2 (filter isValidBlogLink organic) \<and>
        length links \<le> 2 \<and>
        (\<forall>u \<in> set links. isValidBlogLink u) \<and>
        subseq links organic)"
proof -
  assume s: "search e t = Inr organic"
  let ?ls = "take 2 (filter isValidBlogLink organic)"
  have "set ?ls \<subseteq> set (filter isValidBlogLink organic)" by (rule set_take_subset)
  then have v: "\<forall>u \<in> set ?ls. isValidBlogLink u" by auto
  have "subseq ?ls (filter isValidBlogLink organic)"
    by (rule prefix_imp_subseq) (rule take_is_prefix)
  then have o: "subseq ?ls organic"
    by (rule subseq_order.order_trans) (rule subseq_filter_left)
  have r: "snd (googleSearch e t) = Inr ?ls"
    using s by (simp add: googleSearch_eq)
  have l: "length ?ls \<le> 2" by simp
  from r l v o show ?thesis by (intro exI [of _ ?ls] conjI refl)
qed

theorem googleSearch_bounded_filtered_ordered_witness:
  "snd (googleSearch
          (example_env
             [js ''https://en.wikipedia.org/wiki/A'', js ''https://a.example/1'',
              js ''https://www.youtube.com/watch'', js ''https://b.example/2'',
              js ''https://c.example/3'']
             (Inl InferenceError))
          (js ''Topic'')) =
     Inr [js ''https://a.example/1'', js ''https://b.example/2''] \<and>
   isValidBlogLink (js ''https://a.example/1'') \<and> isValidBlogLink (js ''https://b.example/2'') \<and>
   subseq [js ''https://a.example/1'', js ''https://b.example/2'']
     [js ''https://en.wikipedia.org/wiki/A'', js ''https://a.example/1'',
      js ''https://www.youtube.com/watch'', js ''https://b.example/2'',
      js ''https://c.example/3'']"
proof -
  let ?organic = "[js ''https://en.wikipedia.org/wiki/A'', js ''https://a.example/1'',
      js ''https://www.youtube.com/watch'', js ''https://b.example/2'',
      js ''https://c.example/3'']"
  let ?e = "example_env ?organic (Inl InferenceError)"
  have s: "search ?e (js ''Topic'') = Inr ?organic"
    by (simp add: example_env_def)
  have t: "take 2 (filter isValidBlogLink ?organic) =
           [js ''https://a.example/1'', js ''https://b.example/2'']"
    by code_simp
  from googleSearch_bounded_filtered_ordered [OF s] obtain links where
    "snd (googleSearch ?e (js ''Topic'')) = Inr links"
    "links = take 2 (filter isValidBlogLink ?organic)"
    "\<forall>u \<in> set links. isValidBlogLink u" "subseq links ?organic"
    by blast
  then show ?thesis unfolding t by simp
qed

section \<open>The scraped text\<close>

lemma has_ws_run_append_left: "has_ws_run xs \<Longrightarrow> has_ws_run (ys @ xs)"
proof (induction ys)
  case Nil then show ?case by simp
next
  case (Cons y ys)
  then have "has_ws_run (ys @ xs)" by simp
  then show ?case by (cases "ys @ xs") simp_all
qed

lemma has_ws_run_append_right: "has_ws_run xs \<Longrightarrow> has_ws_run (xs @ zs)"
  by (induction xs rule: has_ws_run.induct) auto

lemma has_ws_run_sublist: "sublist xs ys \<Longrightarrow> has_ws_run xs \<Longrightarrow> has_ws_run ys"
  by (auto simp: sublist_def intro: has_ws_run_append_left has_ws_run_append_right)

lemma sublist_trim: "sublist (trim s) s"
proof -
  have "sublist (dropWhile is_space (rev (dropWhile is_space s))) (rev (dropWhile is_space s))"
    by (rule sublist_dropWhile)
  then have "sublist (trim s) (dropWhile is_space s)"
    by (simp add: trim_def sublist_rev_left)
  then show ?thesis
    using sublist_dropWhile sublist_order.order_trans by blast
qed

lemma collapse_ws_nonspace:
  "\<not> is_space c \<Longrightarrow> collapse_ws (c # cs) = c # collapse_ws cs"
  by simp

lemma collapse_ws_head:
  "collapse_ws (dropWhile is_space cs) = a # r \<Longrightarrow> \<not> is_space a"
proof (cases "dropWhile is_space cs")
  case Nil
  then show "collapse_ws (dropWhile is_space cs) = a # r \<Longrightarrow> \<not> is_space a" by simp
next
  case (Cons d ds)
  then have "\<not> is_space d" by (metis hd_dropWhile list.sel(1) list.distinct(1))
  then show "collapse_ws (dropWhile is_space cs) = a # r \<Longrightarrow> \<not> is_space a"
    using Cons by simp
qed

lemma collapse_ws_no_run: "\<not> has_ws_run (collapse_ws xs)"
proof (induction xs rule: collapse_ws.induct)
  case 1
  then show ?case by simp
next
  case (2 c cs)
  show ?case
  proof (cases "is_space c")
    case True
    with 2 have ih: "\<not> has_ws_run (collapse_ws (dropWhile is_space cs))" by simp
    show ?thesis
    proof (cases "collapse_ws (dropWhile is_space cs)")
      case Nil
      with True show ?thesis by simp
    next
      case (Cons a r)
      then have "\<not> is_space a" by (rule collapse_ws_head)
      with True ih Cons show ?thesis by simp
    qed
  next
    case False
    with 2 have ih: "\<not> has_ws_run (collapse_ws cs)" by simp
    show ?thesis
    proof (cases "collapse_ws cs")
      case Nil
      with False show ?thesis by simp
    next
      case (Cons a r)
      with False ih show ?thesis by simp
    qed
  qed
qed

lemma scrape_text_no_run: "\<not> has_ws_run (take n (trim (collapse_ws xs)))"
proof
  assume "has_ws_run (take n (trim (collapse_ws xs)))"
  then have "has_ws_run (trim (collapse_ws xs))"
    using has_ws_run_sublist sublist_take by blast
  then have "has_ws_run (collapse_ws xs)"
    using has_ws_run_sublist sublist_trim by blast
  then show False by (simp add: collapse_ws_no_run)
qed

text \<open>A page with an empty \<^verbatim>\<open>article\<close> text: the \<^verbatim>\<open>main\<close> text is taken and normalised.\<close>

lemma scrapeArticle_example:
  "scrapeArticle
     (example_env [] (Inl InferenceError)
        \<lparr> get_page := \<lambda>u. Inr \<lparr> article_text = [],
                                   main_text = js ''  Hello,\<newline>\<newline>   world  '',
                                   body_text = js ''menu Hello, world footer'' \<rparr> \<rparr>)
     (js ''https://a.example/1'') =
   ([GetPage (js ''https://a.example/1'')], Inr (js ''Hello, world''))"
  by code_simp

text \<open>
  C8. For every URL and every answer of the page fetcher, \<^verbatim>\<open>scrapeArticle\<close> resolves
  to a string of at most 4000 code units in which no two adjacent code units are both
  white space.
\<close>
theorem scrapeArticle_bounded_collapsed:
  "\<exists>s. snd (scrapeArticle e url) = Inr s \<and> length s \<le> 4000 \<and> \<not> has_ws_run s"
proof (cases "get_page e url")
  case (Inl err)
  then show ?thesis by (simp add: scrapeArticle_eq)
next
  case (Inr pg)
  then show ?thesis by (simp add: scrapeArticle_eq scrape_text_no_run)
qed

text \<open>
  C9. When the fetch of the URL fails, \<^verbatim>\<open>scrapeArticle\<close> issues that one GET and
  resolves to the empty string; it does not reject.
\<close>
theorem scrapeArticle_fetch_error:
  "get_page e url = Inl err \<Longrightarrow> scrapeArticle e url = ([GetPage url], Inr [])"
  by (simp add: scrapeArticle_eq)

theorem scrapeArticle_fetch_error_witness:
  "scrapeArticle (example_env [] (Inl InferenceError)) (js ''https://a.example/1'') =
     ([GetPage (js ''https://a.example/1'')], Inr [])"
proof -
  have "get_page (example_env [] (Inl InferenceError)) (js ''https://a.example/1'') = Inl Timeout"
    by (simp add: example_env_def)
  then show ?thesis by (rule scrapeArticle_fetch_error)
qed

section \<open>The prompt\<close>

text \<open>
  C4. The calls that \<^verbatim>\<open>rewriteWithAI\<close> issues are the same for any two lists of
  reference texts: one chat request, built from the original and the URLs only, whose user
  message is \<^verbatim>\<open>Rewrite this: \<close> followed by the first 800 code units of the original,
  \<^verbatim>\<open>. Refs: \<close> and the URLs joined with a comma and a space.
\<close>
theorem rewrite_prompt_ignores_reference_texts:
  "fst (rewriteWithAI e original refs urls) = fst (rewriteWithAI e original refs' urls) \<and>
   fst (rewriteWithAI e original refs urls) = [Chat (rewrite_request original urls)] \<and>
   messages (rewrite_request original urls) =
     [(System, system_prompt),
      (User, js ''Rewrite this: '' @ take 800 original @ js ''. Refs: '' @ join (js '', '') urls)]"
  by (simp add: rewriteWithAI_eq rewrite_request_def user_prompt_def)

section \<open>The runs of \<^verbatim>\<open>main\<close>\<close>

lemma main_fetch_failed:
  "latest_article e = Inl err \<Longrightarrow> main e = ([GetLatest], Inr (Fatal err))"
  by (simp add: main_def fetchLatestArticle_def io_defs)

lemma main_few_links:
  assumes "latest_article e = Inr art" and "snd (googleSearch e (art_title art)) = Inr links"
    and "length links < 2"
  shows "main e = ([GetLatest, Search (art_title art)], Inr NotEnoughLinks)"
  using assms by (simp add: main_def fetchLatestArticle_def googleSearch_eq io_defs)

lemma main_rewrite_stage:
  assumes "latest_article e = Inr art" and "snd (googleSearch e (art_title art)) = Inr links"
    and "\<not> length links < 2"
  shows "main e =
     (case snd (rewriteWithAI e (art_content art) refs links) of
        Inr (Some d) \<Rightarrow>
          if content d = []
          then ([GetLatest, Search (art_title art)] @ map GetPage links @
                [Chat (rewrite_request (art_content art) links)], Inr GenerationFailed)
          else ([GetLatest, Search (art_title art)] @ map GetPage links @
                [Chat (rewrite_request (art_content art) links),
                 PostAI (art_id art) (publish_payload (Structured d) links)],
                Inr (case post_article e (art_id art) (publish_payload (Structured d) links) of
                       Inl err \<Rightarrow> Fatal err | Inr u \<Rightarrow> Published))
      | _ \<Rightarrow> ([GetLatest, Search (art_title art)] @ map GetPage links @
                [Chat (rewrite_request (art_content art) links)], Inr GenerationFailed))"
  using assms
  by (simp add: main_def fetchLatestArticle_def googleSearch_eq promise_all_scrape
      rewriteWithAI_eq publishArticle_def io_defs split: sum.splits option.splits)

text \<open>
  C5. In a run in which \<^verbatim>\<open>googleSearch\<close> yields fewer than two links, \<^verbatim>\<open>main\<close>
  returns at the link check: no page is fetched, no chat request is made and nothing is
  posted.
\<close>
theorem main_aborts_on_few_links:
  assumes "latest_article e = Inr art" and "snd (googleSearch e (art_title art)) = Inr links"
    and "length links < 2"
  shows "snd (main e) = Inr NotEnoughLinks \<and>
         scraped (fst (main e)) = [] \<and> prompted (fst (main e)) = [] \<and>
         posted (fst (main e)) = []"
  using main_few_links [OF assms] by simp

theorem main_aborts_on_few_links_witness:
  "snd (main (example_env [js ''https://en.wikipedia.org/a'', js ''https://blog.example/b''] (Inr (js ''x'')))) = Inr NotEnoughLinks \<and>
   scraped (fst (main (example_env [js ''https://en.wikipedia.org/a'', js ''https://blog.example/b''] (Inr (js ''x''))))) = [] \<and>
   prompted (fst (main (example_env [js ''https://en.wikipedia.org/a'', js ''https://blog.example/b''] (Inr (js ''x''))))) = [] \<and>
   posted (fst (main (example_env [js ''https://en.wikipedia.org/a'', js ''https://blog.example/b''] (Inr (js ''x''))))) = []"
proof -
  let ?e = "example_env [js ''https://en.wikipedia.org/a'', js ''https://blog.example/b''] (Inr (js ''x''))"
  have a: "latest_article ?e = Inr \<lparr> art_id = 7, art_title = js ''Topic'', art_content = js ''Old text'' \<rparr>"
    by (simp add: example_env_def)
  have b: "snd (googleSearch ?e (art_title \<lparr> art_id = 7, art_title = js ''Topic'', art_content = js ''Old text'' \<rparr>)) = Inr [js ''https://blog.example/b'']"
    by code_simp
  have c: "length [js ''https://blog.example/b''] < 2" by simp
  show ?thesis by (rule main_aborts_on_few_links [OF a b c])
qed

text \<open>
  C6. In a run in which \<^verbatim>\<open>rewriteWithAI\<close> resolves to \<^verbatim>\<open>null\<close> or to a result with
  an empty \<^verbatim>\<open>content\<close>, nothing is posted to the content store, and a run that came
  as far as the rewrite ends as a failed generation.
\<close>
theorem main_never_publishes_failed_rewrite:
  assumes "latest_article e = Inr art" and "snd (googleSearch e (art_title art)) = Inr links"
    and "snd (promise_all (map (scrapeArticle e) links)) = Inr refContents"
    and "snd (rewriteWithAI e (art_content art) refContents links) = Inr aiData"
    and "aiData = None \<or> (\<exists>d. aiData = Some d \<and> content d = [])"
  shows "posted (fst (main e)) = [] \<and>
         (2 \<le> length links \<longrightarrow> snd (main e) = Inr GenerationFailed)"
proof (cases "length links < 2")
  case True
  then show ?thesis using main_few_links [OF assms(1,2)] by simp
next
  case False
  then show ?thesis
    using main_rewrite_stage [OF assms(1,2) False, of refContents] assms(4,5)
    by auto
qed

theorem main_never_publishes_failed_rewrite_witness:
  "posted (fst (main (example_env [js ''https://a.example/1'', js ''https://b.example/2'']
                        (Inl InferenceError)))) = [] \<and>
   snd (main (example_env [js ''https://a.example/1'', js ''https://b.example/2'']
                (Inl InferenceError))) = Inr GenerationFailed \<and>
   posted (fst (main (example_env [js ''https://a.example/1'', js ''https://b.example/2'']
                        (Inr [])))) = [] \<and>
   snd (main (example_env [js ''https://a.example/1'', js ''https://b.example/2'']
                (Inr []))) = Inr GenerationFailed"
proof -
  let ?links = "[js ''https://a.example/1'', js ''https://b.example/2'']"
  let ?e = "example_env ?links (Inl InferenceError)"
  let ?f = "example_env ?links (Inr [])"
  let ?art = "\<lparr> art_id = 7, art_title = js ''Topic'', art_content = js ''Old text'' \<rparr>"
  let ?d = "\<lparr> title = default_title, description = default_description, content = [] \<rparr>"
  have a: "latest_article ?e = Inr ?art" and a': "latest_article ?f = Inr ?art"
    by (simp_all add: example_env_def)
  have b: "snd (googleSearch ?e (art_title ?art)) = Inr ?links"
    and b': "snd (googleSearch ?f (art_title ?art)) = Inr ?links"
    by code_simp+
  have c: "snd (promise_all (map (scrapeArticle ?e) ?links)) = Inr [[], []]"
    and c': "snd (promise_all (map (scrapeArticle ?f) ?links)) = Inr [[], []]"
    by code_simp+
  have d: "snd (rewriteWithAI ?e (art_content ?art) [[], []] ?links) = Inr None"
    by (simp add: rewriteWithAI_eq example_env_def)
  have d': "snd (rewriteWithAI ?f (art_content ?art) [[], []] ?links) = Inr (Some ?d)"
    by (simp add: rewriteWithAI_eq example_env_def parse_response_def group_or_def
        line_field_def rest_field_def js_def)
  have f: "None = None \<or> (\<exists>d. (None :: rewrite_result option) = Some d \<and> content d = [])"
    by simp
  have f': "Some ?d = None \<or> (\<exists>d. Some ?d = Some d \<and> content d = [])"
    by simp
  have l: "2 \<le> length ?links" by simp
  have "posted (fst (main ?e)) = [] \<and> snd (main ?e) = Inr GenerationFailed"
    using main_never_publishes_failed_rewrite [OF a b c d f] l by blast
  moreover have "posted (fst (main ?f)) = [] \<and> snd (main ?f) = Inr GenerationFailed"
    using main_never_publishes_failed_rewrite [OF a' b' c' d' f'] l by blast
  ultimately show ?thesis by blast
qed

text \<open>
  C3. In every run, either no page is fetched, no chat request is made and nothing is
  posted, or the URLs fetched are exactly the links that \<^verbatim>\<open>googleSearch\<close> returned, in
  that order, exactly one chat request is made and its messages are the system prompt and
  the user message \<^verbatim>\<open>Rewrite this: \<close>, the first 800 code units of the article,
  \<^verbatim>\<open>. Refs: \<close> and that same list joined by a comma and a space, and a payload that is
  posted carries that same list as its \<^verbatim>\<open>references\<close>.
\<close>
theorem reference_list_threaded:
  "(scraped (fst (main e)) = [] \<and> prompted (fst (main e)) = [] \<and> posted (fst (main e)) = []) \<or>
   (\<exists>art links.
      latest_article e = Inr art \<and> snd (googleSearch e (art_title art)) = Inr links \<and>
      scraped (fst (main e)) = links \<and>
      (\<exists>r. prompted (fst (main e)) = [r] \<and>
           r = rewrite_request (art_content art) links \<and>
           messages r =
             [(System, system_prompt),
              (User, js ''Rewrite this: '' @ take 800 (art_content art) @ js ''. Refs: '' @
                     join (js '', '') links)]) \<and>
      (posted (fst (main e)) = [] \<or>
       (\<exists>p. posted (fst (main e)) = [(art_id art, p)] \<and> p_references p = links)))"
proof (cases "latest_article e")
  case (Inl err)
  then show ?thesis by (simp add: main_fetch_failed)
next
  case (Inr art)
  obtain links where g: "snd (googleSearch e (art_title art)) = Inr links"
    by (simp add: googleSearch_eq)
  show ?thesis
  proof (cases "length links < 2")
    case True
    then show ?thesis using main_few_links [OF Inr g] by simp
  next
    case False
    have p: "p_references (publish_payload a links) = links" for a
      by (simp add: publish_payload_def Let_def)
    have m: "messages (rewrite_request (art_content art) links) =
             [(System, system_prompt),
              (User, js ''Rewrite this: '' @ take 800 (art_content art) @ js ''. Refs: '' @
                     join (js '', '') links)]"
      by (simp add: rewrite_request_def user_prompt_def)
    have t: "scraped (fst (main e)) = links \<and>
      prompted (fst (main e)) = [rewrite_request (art_content art) links] \<and>
      (posted (fst (main e)) = [] \<or>
       (\<exists>p. posted (fst (main e)) = [(art_id art, p)] \<and> p_references p = links))"
      using main_rewrite_stage [OF Inr g False, of "[]"] p
      by (simp split: sum.splits option.splits)
    then have "\<exists>r. prompted (fst (main e)) = [r] \<and>
           r = rewrite_request (art_content art) links \<and>
           messages r =
             [(System, system_prompt),
              (User, js ''Rewrite this: '' @ take 800 (art_content art) @ js ''. Refs: '' @
                     join (js '', '') links)]"
      using m by blast
    with t Inr g show ?thesis by blast
  qed
qed

theorem reference_list_threaded_witness:
  "scraped (fst (main (example_env [js ''https://a.example/1'', js ''https://b.example/2'']
      (Inr (js ''TITLE: T\<newline>DESCRIPTION: D\<newline>CONTENT: <p>Body</p>''))))) =
     [js ''https://a.example/1'', js ''https://b.example/2''] \<and>
   map messages (prompted (fst (main (example_env
      [js ''https://a.example/1'', js ''https://b.example/2'']
      (Inr (js ''TITLE: T\<newline>DESCRIPTION: D\<newline>CONTENT: <p>Body</p>'')))))) =
     [[(System, system_prompt),
       (User, js ''Rewrite this: Old text. Refs: https://a.example/1, https://b.example/2'')]] \<and>
   map (\<lambda>ip. p_references (snd ip)) (posted (fst (main (example_env
      [js ''https://a.example/1'', js ''https://b.example/2'']
      (Inr (js ''TITLE: T\<newline>DESCRIPTION: D\<newline>CONTENT: <p>Body</p>'')))))) =
     [[js ''https://a.example/1'', js ''https://b.example/2'']]"
proof -
  let ?links = "[js ''https://a.example/1'', js ''https://b.example/2'']"
  let ?e = "example_env ?links
      (Inr (js ''TITLE: T\<newline>DESCRIPTION: D\<newline>CONTENT: <p>Body</p>''))"
  let ?art = "\<lparr> art_id = 7, art_title = js ''Topic'', art_content = js ''Old text'' \<rparr>"
  have a: "latest_article ?e = Inr ?art"
    by (simp add: example_env_def)
  have b: "snd (googleSearch ?e (art_title ?art)) = Inr ?links"
    by code_simp
  have s: "scraped (fst (main ?e)) \<noteq> []" and q: "posted (fst (main ?e)) \<noteq> []"
    by code_simp+
  have u: "js ''Rewrite this: '' @ take 800 (art_content ?art) @ js ''. Refs: '' @
           join (js '', '') ?links =
           js ''Rewrite this: Old text. Refs: https://a.example/1, https://b.example/2''"
    by code_simp
  from reference_list_threaded [of ?e] s obtain art links r where
    "latest_article ?e = Inr art" and "snd (googleSearch ?e (art_title art)) = Inr links"
    and c: "scraped (fst (main ?e)) = links" and d: "prompted (fst (main ?e)) = [r]"
    and m: "messages r =
             [(System, system_prompt),
              (User, js ''Rewrite this: '' @ take 800 (art_content art) @ js ''. Refs: '' @
                     join (js '', '') links)]"
    and f: "posted (fst (main ?e)) = [] \<or>
       (\<exists>p. posted (fst (main ?e)) = [(art_id art, p)] \<and> p_references p = links)"
    by blast
  then have "art = ?art" and l: "links = ?links" using a b by simp_all
  with m have "messages r =
     [(System, system_prompt),
      (User, js ''Rewrite this: Old text. Refs: https://a.example/1, https://b.example/2'')]"
    using u by simp
  moreover from f q l obtain p where "posted (fst (main ?e)) = [(7, p)]"
    and "p_references p = ?links" using \<open>art = ?art\<close> by auto
  ultimately show ?thesis using c d l by simp
qed

section \<open>Parsing the model's answer\<close>

lemma literal_ci_Some:
  "literal_ci p s = Some r \<Longrightarrow> map ascii_upper s = map ascii_upper p @ map ascii_upper r"
  by (induction p s rule: literal_ci.induct) (auto simp: eq_ci_def split: if_splits)

lemma literal_ci_self: "literal_ci m (m @ r) = Some r"
  by (induction m) (simp_all add: eq_ci_def)

lemma literal_ci_within:
  "literal_ci m (xs @ l # ys) = Some r \<Longrightarrow> ascii_upper l \<notin> set (map ascii_upper m) \<Longrightarrow>
     \<exists>r'. literal_ci m xs = Some r'"
proof (induction m xs rule: literal_ci.induct)
  case (1 s)
  then show ?case by simp
next
  case (2 p ps)
  then show ?case by (auto simp: eq_ci_def split: if_splits)
next
  case (3 p ps c cs)
  then show ?case by (auto split: if_splits)
qed

lemma includes_str_appendI: "prefix sub suf \<Longrightarrow> includes_str (pre @ suf) sub"
proof (induction pre)
  case Nil
  then show ?case by (cases suf) simp_all
next
  case (Cons x pre)
  then show ?case by simp
qed

lemma first_match_Some:
  "first_match m s = Some g \<Longrightarrow> \<exists>pre suf. s = pre @ suf \<and> m suf = Some g"
proof (induction s)
  case Nil
  then show ?case by simp
next
  case (Cons c cs)
  show ?case
  proof (cases "m (c # cs)")
    case None
    with Cons obtain pre suf where "cs = pre @ suf" and "m suf = Some g" by auto
    then have "c # cs = (c # pre) @ suf \<and> m suf = Some g" by simp
    then show ?thesis by blast
  next
    case (Some r)
    with Cons.prems have "c # cs = [] @ (c # cs) \<and> m (c # cs) = Some g" by simp
    then show ?thesis by blast
  qed
qed

lemma first_match_head: "m s = Some g \<Longrightarrow> first_match m s = Some g"
  by (cases s) simp_all

lemma starts_includes:
  assumes "s = pre @ suf" and "literal_ci p suf = Some r"
  shows "includes_str (map ascii_upper s) (map ascii_upper p)"
proof -
  have "prefix (map ascii_upper p) (map ascii_upper suf)"
    using literal_ci_Some [OF assms(2)] by simp
  then have "includes_str (map ascii_upper pre @ map ascii_upper suf) (map ascii_upper p)"
    by (rule includes_str_appendI)
  then show ?thesis using assms(1) by simp
qed

lemma marker_absent:
  assumes "\<not> includes_str (map ascii_upper s) (map ascii_upper m)"
  shows "first_match (\<lambda>x. map_option g (literal_ci m x)) s = None"
proof (rule ccontr)
  assume "first_match (\<lambda>x. map_option g (literal_ci m x)) s \<noteq> None"
  then obtain v where "first_match (\<lambda>x. map_option g (literal_ci m x)) s = Some v" by auto
  then obtain pre suf where s: "s = pre @ suf" and "map_option g (literal_ci m suf) = Some v"
    using first_match_Some by blast
  then obtain r where "literal_ci m suf = Some r" by auto
  with s assms show False using starts_includes by blast
qed

lemma marker_behind_separator:
  assumes "\<not> includes_str (map ascii_upper xs) (map ascii_upper m)"
    and "ascii_upper l \<notin> set (map ascii_upper m)" and "m \<noteq> []"
  shows "first_match (\<lambda>x. map_option g (literal_ci m x)) (xs @ l # ys) =
         first_match (\<lambda>x. map_option g (literal_ci m x)) ys"
  using assms(1)
proof (induction xs)
  case Nil
  obtain p ps where m: "m = p # ps" using assms(3) by (cases m) auto
  with assms(2) have "\<not> eq_ci p l" by (auto simp: eq_ci_def)
  with m show ?case by simp
next
  case (Cons x xs)
  have "literal_ci m ((x # xs) @ l # ys) = None"
  proof (rule ccontr)
    assume "literal_ci m ((x # xs) @ l # ys) \<noteq> None"
    then obtain r where "literal_ci m ((x # xs) @ l # ys) = Some r" by auto
    then obtain r' where "literal_ci m (x # xs) = Some r'"
      using literal_ci_within assms(2) by blast
    then have "prefix (map ascii_upper m) (map ascii_upper (x # xs))"
      using literal_ci_Some by fastforce
    with Cons.prems show False by simp
  qed
  moreover have "\<not> includes_str (map ascii_upper xs) (map ascii_upper m)"
    using Cons.prems by simp
  ultimately show ?case using Cons.IH by simp
qed

lemma line_field_fun:
  "line_field m =
     (\<lambda>x. map_option (\<lambda>r. takeWhile (\<lambda>c. \<not> is_line_terminator c) (dropWhile is_space r))
             (literal_ci m x))"
  by (rule ext) (simp add: line_field_def)

lemma rest_field_fun: "rest_field m = (\<lambda>x. map_option (dropWhile is_space) (literal_ci m x))"
  by (rule ext) (simp add: rest_field_def)

lemma dropWhile_spaces:
  "list_all is_space w \<Longrightarrow> t \<noteq> [] \<Longrightarrow> \<not> is_space (hd t) \<Longrightarrow> dropWhile is_space (w @ t) = t"
  by (induction w) (simp_all add: dropWhile_eq_self_iff)

lemma takeWhile_line:
  "\<not> list_ex is_line_terminator t \<Longrightarrow> is_line_terminator l \<Longrightarrow>
     takeWhile (\<lambda>c. \<not> is_line_terminator c) (t @ l # r) = t"
  by (induction t) simp_all

lemma line_field_at_marker:
  assumes "list_all is_space w" and "t \<noteq> []" and "\<not> is_space (hd t)"
    and "\<not> list_ex is_line_terminator t" and "is_line_terminator l"
  shows "line_field m (m @ w @ t @ l # r) = Some t"
proof -
  have "dropWhile is_space (w @ t @ l # r) = t @ l # r"
    using dropWhile_spaces [OF assms(1), of "t @ l # r"] assms(2,3) by simp
  then show ?thesis
    using takeWhile_line [OF assms(4,5)] by (simp add: line_field_def literal_ci_self)
qed

lemma line_terminator_not_in_marker:
  assumes "is_line_terminator l"
  shows "ascii_upper l \<notin> set (map ascii_upper (js ''DESCRIPTION:''))"
    and "ascii_upper l \<notin> set (map ascii_upper (js ''CONTENT:''))"
  using assms by (auto simp: is_line_terminator_def ascii_upper_def js_def)

lemma markers_upper:
  "map ascii_upper (js ''TITLE:'') = js ''TITLE:''"
  "map ascii_upper (js ''DESCRIPTION:'') = js ''DESCRIPTION:''"
  "map ascii_upper (js ''CONTENT:'') = js ''CONTENT:''"
  by (simp_all add: js_def ascii_upper_def)

lemma parse_documented_format:
  assumes w: "list_all is_space w1" "list_all is_space w2" "list_all is_space w3"
    and ne: "t \<noteq> []" "d \<noteq> []" "c \<noteq> []"
    and hd: "\<not> is_space (hd t)" "\<not> is_space (hd d)" "\<not> is_space (hd c)"
    and ln: "\<not> list_ex is_line_terminator t" "\<not> list_ex is_line_terminator d"
    and lt: "is_line_terminator l1" "is_line_terminator l2"
    and m1: "\<not> includes_str (map ascii_upper (js ''TITLE:'' @ w1 @ t)) (js ''DESCRIPTION:'')"
    and m2: "\<not> includes_str (map ascii_upper (js ''TITLE:'' @ w1 @ t)) (js ''CONTENT:'')"
    and m3: "\<not> includes_str (map ascii_upper (js ''DESCRIPTION:'' @ w2 @ d)) (js ''CONTENT:'')"
  shows "parse_response
           (js ''TITLE:'' @ w1 @ t @ l1 # js ''DESCRIPTION:'' @ w2 @ d @ l2 #
            js ''CONTENT:'' @ w3 @ c) =
         \<lparr> title = t, description = d, content = c \<rparr>"
proof -
  let ?l3 = "js ''CONTENT:'' @ w3 @ c"
  let ?l2 = "js ''DESCRIPTION:'' @ w2 @ d"
  let ?l1 = "js ''TITLE:'' @ w1 @ t"
  let ?resp = "js ''TITLE:'' @ w1 @ t @ l1 # js ''DESCRIPTION:'' @ w2 @ d @ l2 # ?l3"
  have nD: "js ''DESCRIPTION:'' \<noteq> []" and nC: "js ''CONTENT:'' \<noteq> []"
    by (simp_all add: js_def)
  have "line_field (js ''TITLE:'') ?resp = Some t"
    by (rule line_field_at_marker [OF w(1) ne(1) hd(1) ln(1) lt(1)])
  then have T: "first_match (line_field (js ''TITLE:'')) ?resp = Some t"
    by (rule first_match_head)
  have "first_match (line_field (js ''DESCRIPTION:'')) (?l1 @ l1 # ?l2 @ l2 # ?l3) =
        first_match (line_field (js ''DESCRIPTION:'')) (?l2 @ l2 # ?l3)"
    unfolding line_field_fun
    by (rule marker_behind_separator [OF _ line_terminator_not_in_marker(1) [OF lt(1)] nD])
       (simp only: markers_upper m1 not_False_eq_True)
  moreover have "line_field (js ''DESCRIPTION:'') (js ''DESCRIPTION:'' @ w2 @ d @ l2 # ?l3) = Some d"
    by (rule line_field_at_marker [OF w(2) ne(2) hd(2) ln(2) lt(2)])
  then have "first_match (line_field (js ''DESCRIPTION:'')) (?l2 @ l2 # ?l3) = Some d"
    using first_match_head by simp
  ultimately have D: "first_match (line_field (js ''DESCRIPTION:'')) ?resp = Some d"
    by simp
  have "first_match (rest_field (js ''CONTENT:'')) (?l1 @ l1 # ?l2 @ l2 # ?l3) =
        first_match (rest_field (js ''CONTENT:'')) (?l2 @ l2 # ?l3)"
    unfolding rest_field_fun
    by (rule marker_behind_separator [OF _ line_terminator_not_in_marker(2) [OF lt(1)] nC])
       (simp only: markers_upper m2 not_False_eq_True)
  moreover have "first_match (rest_field (js ''CONTENT:'')) (?l2 @ l2 # ?l3) =
        first_match (rest_field (js ''CONTENT:'')) ?l3"
    unfolding rest_field_fun
    by (rule marker_behind_separator [OF _ line_terminator_not_in_marker(2) [OF lt(2)] nC])
       (simp only: markers_upper m3 not_False_eq_True)
  moreover have "rest_field (js ''CONTENT:'') ?l3 = Some c"
    using dropWhile_spaces [OF w(3) ne(3) hd(3)] by (simp add: rest_field_def literal_ci_self)
  then have "first_match (rest_field (js ''CONTENT:'')) ?l3 = Some c"
    by (rule first_match_head)
  ultimately have C: "first_match (rest_field (js ''CONTENT:'')) ?resp = Some c"
    by simp
  show ?thesis
    unfolding parse_response_def T D C using ne by (simp add: group_or_def or_else_def)
qed

lemma parse_no_markers:
  assumes "\<not> includes_str (map ascii_upper resp) (js ''TITLE:'')"
    and "\<not> includes_str (map ascii_upper resp) (js ''DESCRIPTION:'')"
    and "\<not> includes_str (map ascii_upper resp) (js ''CONTENT:'')"
  shows "parse_response resp =
         \<lparr> title = default_title, description = default_description, content = resp \<rparr>"
proof -
  have "first_match (line_field (js ''TITLE:'')) resp = None"
    unfolding line_field_fun by (rule marker_absent) (simp only: markers_upper assms not_False_eq_True)
  moreover have "first_match (line_field (js ''DESCRIPTION:'')) resp = None"
    unfolding line_field_fun by (rule marker_absent) (simp only: markers_upper assms not_False_eq_True)
  moreover have "first_match (rest_field (js ''CONTENT:'')) resp = None"
    unfolding rest_field_fun by (rule marker_absent) (simp only: markers_upper assms not_False_eq_True)
  ultimately show ?thesis by (simp add: parse_response_def group_or_def)
qed

text \<open>
  C2, as the code has it. A response \<^verbatim>\<open>TITLE:\<close> \<open>w1 t l1\<close> \<^verbatim>\<open>DESCRIPTION:\<close> \<open>w2 d l2\<close>
  \<^verbatim>\<open>CONTENT:\<close> \<open>w3 c\<close>, where \<open>w1\<close>, \<open>w2\<close>, \<open>w3\<close> are white space, \<open>l1\<close> and \<open>l2\<close> are
  line terminators, \<open>t\<close> and \<open>d\<close> are non-empty, do not start with white space and hold no
  line terminator, \<open>c\<close> is non-empty and does not start with white space, the title line
  holds neither \<^verbatim>\<open>DESCRIPTION:\<close> nor \<^verbatim>\<open>CONTENT:\<close> and the description line does not hold
  \<^verbatim>\<open>CONTENT:\<close> (in any letter case), is parsed into exactly \<open>t\<close>, \<open>d\<close> and \<open>c\<close>: the white
  space behind a marker is skipped, white space at the end of a segment is kept. A
  response that holds none of the three markers (in any letter case) is parsed into the
  default title, the default description and the whole response as content.
\<close>
theorem rewrite_parses_documented_format:
  "(chat e (rewrite_request original urls) =
      Inr (js ''TITLE:'' @ w1 @ t @ l1 # js ''DESCRIPTION:'' @ w2 @ d @ l2 #
           js ''CONTENT:'' @ w3 @ c) \<and>
    list_all is_space w1 \<and> list_all is_space w2 \<and> list_all is_space w3 \<and>
    t \<noteq> [] \<and> d \<noteq> [] \<and> c \<noteq> [] \<and>
    \<not> is_space (hd t) \<and> \<not> is_space (hd d) \<and> \<not> is_space (hd c) \<and>
    \<not> list_ex is_line_terminator t \<and> \<not> list_ex is_line_terminator d \<and>
    is_line_terminator l1 \<and> is_line_terminator l2 \<and>
    \<not> includes_str (map ascii_upper (js ''TITLE:'' @ w1 @ t)) (js ''DESCRIPTION:'') \<and>
    \<not> includes_str (map ascii_upper (js ''TITLE:'' @ w1 @ t)) (js ''CONTENT:'') \<and>
    \<not> includes_str (map ascii_upper (js ''DESCRIPTION:'' @ w2 @ d)) (js ''CONTENT:'')
    \<longrightarrow> snd (rewriteWithAI e original refs urls) =
          Inr (Some \<lparr> title = t, description = d, content = c \<rparr>)) \<and>
   (chat e (rewrite_request original urls) = Inr resp \<and>
    \<not> includes_str (map ascii_upper resp) (js ''TITLE:'') \<and>
    \<not> includes_str (map ascii_upper resp) (js ''DESCRIPTION:'') \<and>
    \<not> includes_str (map ascii_upper resp) (js ''CONTENT:'')
    \<longrightarrow> snd (rewriteWithAI e original refs urls) =
          Inr (Some \<lparr> title = default_title, description = default_description,
                       content = resp \<rparr>))"
proof (intro conjI impI)
  assume "chat e (rewrite_request original urls) =
      Inr (js ''TITLE:'' @ w1 @ t @ l1 # js ''DESCRIPTION:'' @ w2 @ d @ l2 #
           js ''CONTENT:'' @ w3 @ c) \<and>
    list_all is_space w1 \<and> list_all is_space w2 \<and> list_all is_space w3 \<and>
    t \<noteq> [] \<and> d \<noteq> [] \<and> c \<noteq> [] \<and>
    \<not> is_space (hd t) \<and> \<not> is_space (hd d) \<and> \<not> is_space (hd c) \<and>
    \<not> list_ex is_line_terminator t \<and> \<not> list_ex is_line_terminator d \<and>
    is_line_terminator l1 \<and> is_line_terminator l2 \<and>
    \<not> includes_str (map ascii_upper (js ''TITLE:'' @ w1 @ t)) (js ''DESCRIPTION:'') \<and>
    \<not> includes_str (map ascii_upper (js ''TITLE:'' @ w1 @ t)) (js ''CONTENT:'') \<and>
    \<not> includes_str (map ascii_upper (js ''DESCRIPTION:'' @ w2 @ d)) (js ''CONTENT:'')"
  then show "snd (rewriteWithAI e original refs urls) =
          Inr (Some \<lparr> title = t, description = d, content = c \<rparr>)"
    using parse_documented_format [of w1 w2 w3 t d c l1 l2]
    by (simp add: rewriteWithAI_eq)
next
  assume "chat e (rewrite_request original urls) = Inr resp \<and>
    \<not> includes_str (map ascii_upper resp) (js ''TITLE:'') \<and>
    \<not> includes_str (map ascii_upper resp) (js ''DESCRIPTION:'') \<and>
    \<not> includes_str (map ascii_upper resp) (js ''CONTENT:'')"
  then show "snd (rewriteWithAI e original refs urls) =
          Inr (Some \<lparr> title = default_title, description = default_description,
                       content = resp \<rparr>)"
    using parse_no_markers [of resp] by (simp add: rewriteWithAI_eq)
qed

theorem rewrite_parses_documented_format_witness:
  "snd (rewriteWithAI
          (example_env []
             (Inr (js ''TITLE: A\<newline>DESCRIPTION: B \<newline>CONTENT: <p>C</p>\<newline>'')))
          (js ''Old text'') [] []) =
     Inr (Some \<lparr> title = js ''A'', description = js ''B '',
                  content = js ''<p>C</p>\<newline>'' \<rparr>) \<and>
   snd (rewriteWithAI (example_env [] (Inr (js ''I cannot help with that.'')))
          (js ''Old text'') [] []) =
     Inr (Some \<lparr> title = default_title, description = default_description,
                  content = js ''I cannot help with that.'' \<rparr>)"
proof -
  let ?r = "js ''TITLE: A\<newline>DESCRIPTION: B \<newline>CONTENT: <p>C</p>\<newline>''"
  let ?e = "example_env [] (Inr ?r)"
  let ?f = "example_env [] (Inr (js ''I cannot help with that.''))"
  have h1: "chat ?e (rewrite_request (js ''Old text'') []) =
      Inr (js ''TITLE:'' @ js '' '' @ js ''A'' @ 0x0A # js ''DESCRIPTION:'' @ js '' '' @ js ''B '' @
           0x0A # js ''CONTENT:'' @ js '' '' @ js ''<p>C</p>\<newline>'') \<and>
    list_all is_space (js '' '') \<and> list_all is_space (js '' '') \<and> list_all is_space (js '' '') \<and>
    js ''A'' \<noteq> [] \<and> js ''B '' \<noteq> [] \<and> js ''<p>C</p>\<newline>'' \<noteq> [] \<and>
    \<not> is_space (hd (js ''A'')) \<and> \<not> is_space (hd (js ''B '')) \<and>
    \<not> is_space (hd (js ''<p>C</p>\<newline>'')) \<and>
    \<not> list_ex is_line_terminator (js ''A'') \<and> \<not> list_ex is_line_terminator (js ''B '') \<and>
    is_line_terminator 0x0A \<and> is_line_terminator 0x0A \<and>
    \<not> includes_str (map ascii_upper (js ''TITLE:'' @ js '' '' @ js ''A'')) (js ''DESCRIPTION:'') \<and>
    \<not> includes_str (map ascii_upper (js ''TITLE:'' @ js '' '' @ js ''A'')) (js ''CONTENT:'') \<and>
    \<not> includes_str (map ascii_upper (js ''DESCRIPTION:'' @ js '' '' @ js ''B '')) (js ''CONTENT:'')"
    by code_simp
  have h2: "chat ?f (rewrite_request (js ''Old text'') []) = Inr (js ''I cannot help with that.'') \<and>
    \<not> includes_str (map ascii_upper (js ''I cannot help with that.'')) (js ''TITLE:'') \<and>
    \<not> includes_str (map ascii_upper (js ''I cannot help with that.'')) (js ''DESCRIPTION:'') \<and>
    \<not> includes_str (map ascii_upper (js ''I cannot help with that.'')) (js ''CONTENT:'')"
    by code_simp
  have a: "snd (rewriteWithAI ?e (js ''Old text'') [] []) =
     Inr (Some \<lparr> title = js ''A'', description = js ''B '',
                  content = js ''<p>C</p>\<newline>'' \<rparr>)"
    using rewrite_parses_documented_format
      [where e = ?e and original = "js ''Old text''" and urls = "[]" and refs = "[]"
         and ?w1.0 = "js '' ''" and t = "js ''A''" and ?l1.0 = "0x0A"
         and ?w2.0 = "js '' ''" and d = "js ''B ''" and ?l2.0 = "0x0A"
         and ?w3.0 = "js '' ''" and c = "js ''<p>C</p>\<newline>''"] h1
    by blast
  have b: "snd (rewriteWithAI ?f (js ''Old text'') [] []) =
     Inr (Some \<lparr> title = default_title, description = default_description,
                  content = js ''I cannot help with that.'' \<rparr>)"
    using rewrite_parses_documented_format
      [where e = ?f and original = "js ''Old text''" and urls = "[]" and refs = "[]"
         and resp = "js ''I cannot help with that.''"] h2
    by blast
  from a b show ?thesis by (rule conjI)
qed

text \<open>
  C2, as it is stated, fails: the title of a response whose title line ends in a space is
  returned with that space, so it is not trimmed.
\<close>
theorem rewrite_title_not_trimmed:
  "snd (rewriteWithAI
          (example_env [] (Inr (js ''TITLE: A \<newline>DESCRIPTION: B\<newline>CONTENT: C'')))
          (js ''Old text'') [] []) =
     Inr (Some \<lparr> title = js ''A '', description = js ''B'', content = js ''C'' \<rparr>) \<and>
   trim (js ''A '') \<noteq> js ''A ''"
  by code_simp

text \<open>
  Why the segments must be non-empty and the earlier lines free of later markers: behind a
  marker \<^verbatim>\<open>\s*\<close> runs over line breaks, so an empty title takes the next line; and each
  pattern stops at the first occurrence of its marker, wherever it is.
\<close>

lemma empty_title_takes_next_line:
  "title (parse_response (js ''TITLE:\<newline>DESCRIPTION: B\<newline>CONTENT: C'')) =
     js ''DESCRIPTION: B''"
  by code_simp

lemma marker_inside_title_line:
  "content (parse_response
      (js ''TITLE: Good content: a guide\<newline>DESCRIPTION: B\<newline>CONTENT: C'')) =
     js ''a guide\<newline>DESCRIPTION: B\<newline>CONTENT: C''"
  by code_simp

section \<open>The published metadata\<close>

lemma heading_at_opens:
  assumes "heading_at suf = Some g"
  shows "prefix (js ''<H1'') (map ascii_upper suf) \<or> prefix (js ''<H2'') (map ascii_upper suf)"
proof -
  from assms obtain d r where l: "literal_ci (js ''<h'') suf = Some (d # r)" and "is_h_digit d"
    by (auto simp: heading_at_def split: option.splits list.splits if_splits)
  then have "ascii_upper d = 0x31 \<or> ascii_upper d = 0x32"
    by (auto simp: is_h_digit_def ascii_upper_def)
  moreover have "map ascii_upper suf = map ascii_upper (js ''<h'') @ ascii_upper d # map ascii_upper r"
    using literal_ci_Some [OF l] by simp
  moreover have "map ascii_upper (js ''<h'') = [0x3C, 0x48]"
    by (simp add: js_def ascii_upper_def)
  moreover have "js ''<H1'' = [0x3C, 0x48, 0x31]" and "js ''<H2'' = [0x3C, 0x48, 0x32]"
    by (simp_all add: js_def)
  ultimately show ?thesis by auto
qed

lemma para_at_opens:
  assumes "para_at suf = Some g"
  shows "prefix (js ''<P'') (map ascii_upper suf)"
proof -
  from assms obtain r where l: "literal_ci (js ''<p'') suf = Some r"
    by (auto simp: para_at_def split: option.splits)
  have "map ascii_upper (js ''<p'') = js ''<P''"
    by (simp add: js_def ascii_upper_def)
  then show ?thesis using literal_ci_Some [OF l] by simp
qed

lemma element_occurs_iff:
  "element_occurs opens n closes s \<longleftrightarrow>
     (\<exists>suf r y. suffix suf s \<and> opens suf \<and> suffix r (drop n suf) \<and> prefix [0x3E] r \<and>
        suffix y (tl r) \<and> closes y)"
proof
  assume "element_occurs opens n closes s"
  then obtain suf where "suf \<in> set (suffixes s)" and "opens suf"
    and "list_ex (\<lambda>r. prefix [0x3E] r \<and> list_ex closes (suffixes (tl r))) (suffixes (drop n suf))"
    unfolding element_occurs_def list_ex_iff [of _ "suffixes s"] by blast
  moreover from this obtain r where "r \<in> set (suffixes (drop n suf))" and "prefix [0x3E] r"
    and "list_ex closes (suffixes (tl r))"
    unfolding list_ex_iff [of _ "suffixes (drop n suf)"] by blast
  moreover from this obtain y where "y \<in> set (suffixes (tl r))" and "closes y"
    unfolding list_ex_iff by blast
  ultimately show "\<exists>suf r y. suffix suf s \<and> opens suf \<and> suffix r (drop n suf) \<and>
      prefix [0x3E] r \<and> suffix y (tl r) \<and> closes y"
    unfolding in_set_suffixes by blast
next
  assume "\<exists>suf r y. suffix suf s \<and> opens suf \<and> suffix r (drop n suf) \<and>
      prefix [0x3E] r \<and> suffix y (tl r) \<and> closes y"
  then obtain suf r y where "suf \<in> set (suffixes s)" and "opens suf"
    and "r \<in> set (suffixes (drop n suf))" and "prefix [0x3E] r"
    and "y \<in> set (suffixes (tl r))" and "closes y"
    unfolding in_set_suffixes by blast
  then show "element_occurs opens n closes s"
    unfolding element_occurs_def list_ex_iff by blast
qed

lemma literal_ci_drop: "literal_ci p s = Some r \<Longrightarrow> drop (length p) s = r"
proof (induction p s rule: literal_ci.induct)
  case (1 s)
  then show ?case by simp
next
  case (2 p ps)
  then show ?case by simp
next
  case (3 p ps c cs)
  then show ?case by (cases "eq_ci p c") simp_all
qed

lemma after_gt_Some:
  "after_gt r = Some body \<Longrightarrow> suffix (0x3E # body) r"
proof -
  assume "after_gt r = Some body"
  then obtain x where d: "dropWhile (\<lambda>c. c \<noteq> 0x3E) r = x # body"
    by (auto simp: after_gt_def split: list.splits)
  then have "x = 0x3E" using hd_dropWhile [of "\<lambda>c. c \<noteq> 0x3E" r] by simp
  with d show ?thesis using suffix_dropWhile [of "\<lambda>c. c \<noteq> 0x3E" r] by simp
qed

lemma lazy_until_Some:
  "lazy_until closes body = Some g \<Longrightarrow> \<exists>y. suffix y body \<and> closes y"
proof (induction body arbitrary: g)
  case Nil
  then show ?case by (auto split: if_splits)
next
  case (Cons c cs)
  show ?case
  proof (cases "closes (c # cs)")
    case True
    then show ?thesis by blast
  next
    case False
    with Cons.prems obtain g' where "lazy_until closes cs = Some g'" by auto
    then obtain y where "suffix y cs" and "closes y" using Cons.IH by blast
    then have "suffix y (c # cs) \<and> closes y" by (simp add: suffix_ConsI)
    then show ?thesis by (rule exI)
  qed
qed

lemma first_match_suffix:
  "first_match m s = Some g \<Longrightarrow> \<exists>suf. suffix suf s \<and> m suf = Some g"
proof (induction s)
  case Nil
  then show ?case by simp
next
  case (Cons c cs)
  show ?case
  proof (cases "m (c # cs)")
    case None
    with Cons obtain suf where "suffix suf cs" and "m suf = Some g" by auto
    then have "suffix suf (c # cs) \<and> m suf = Some g" by (simp add: suffix_ConsI)
    then show ?thesis by (rule exI)
  next
    case (Some r)
    with Cons.prems have "m (c # cs) = Some g" by simp
    then show ?thesis by blast
  qed
qed

lemma heading_close_starts:
  assumes "heading_close y"
  shows "starts_ci (js ''</H1>'') y \<or> starts_ci (js ''</H2>'') y"
proof -
  from assms obtain d g r where l: "literal_ci (js ''</h'') y = Some (d # g # r)"
    and "is_h_digit d" and "g = 0x3E"
    by (auto simp: heading_close_def split: option.splits list.splits)
  then have "(ascii_upper d = 0x31 \<or> ascii_upper d = 0x32) \<and> ascii_upper g = 0x3E"
    by (auto simp: is_h_digit_def ascii_upper_def)
  moreover have "map ascii_upper y =
      map ascii_upper (js ''</h'') @ ascii_upper d # ascii_upper g # map ascii_upper r"
    using literal_ci_Some [OF l] by simp
  moreover have "map ascii_upper (js ''</h'') = [0x3C, 0x2F, 0x48]"
    by (simp add: js_def ascii_upper_def)
  moreover have "js ''</H1>'' = [0x3C, 0x2F, 0x48, 0x31, 0x3E]"
    and "js ''</H2>'' = [0x3C, 0x2F, 0x48, 0x32, 0x3E]"
    by (simp_all add: js_def)
  ultimately show ?thesis by (auto simp: starts_ci_def)
qed

lemma para_close_starts:
  assumes "para_close y"
  shows "starts_ci (js ''</P>'') y"
proof -
  from assms obtain r where l: "literal_ci (js ''</p>'') y = Some r"
    by (auto simp: para_close_def)
  have "map ascii_upper (js ''</p>'') = js ''</P>''"
    by (simp add: js_def ascii_upper_def)
  then show ?thesis using literal_ci_Some [OF l] by (simp add: starts_ci_def)
qed

lemma heading_at_element:
  assumes "heading_at suf = Some g"
  shows "\<exists>r y. (starts_ci (js ''<H1'') suf \<or> starts_ci (js ''<H2'') suf) \<and>
           suffix r (drop 3 suf) \<and> prefix [0x3E] r \<and> suffix y (tl r) \<and>
           (starts_ci (js ''</H1>'') y \<or> starts_ci (js ''</H2>'') y)"
proof -
  from assms obtain d r body where l: "literal_ci (js ''<h'') suf = Some (d # r)"
    and "is_h_digit d" and a: "after_gt r = Some body"
    and z: "lazy_until heading_close body = Some g"
    by (auto simp: heading_at_def split: option.splits list.splits if_splits)
  then have o: "starts_ci (js ''<H1'') suf \<or> starts_ci (js ''<H2'') suf"
    using heading_at_opens [OF assms] by (simp add: starts_ci_def)
  have "length (js ''<h'') = 2" by (simp add: js_def)
  then have "drop 2 suf = d # r" using literal_ci_drop [OF l] by simp
  then have "r = tl (drop 2 suf)" by (metis list.sel(3))
  also have "\<dots> = drop 3 suf" by (simp add: numeral_3_eq_3 numeral_2_eq_2 drop_Suc)
  finally have "r = drop 3 suf" .
  then have s: "suffix (0x3E # body) (drop 3 suf)" using after_gt_Some [OF a] by simp
  obtain y where "suffix y body" and "heading_close y" using lazy_until_Some [OF z] by blast
  then have "suffix y (tl (0x3E # body))"
    and "starts_ci (js ''</H1>'') y \<or> starts_ci (js ''</H2>'') y"
    by (simp_all add: heading_close_starts)
  with o s show ?thesis by (intro exI [of _ "0x3E # body"] exI [of _ y]) simp
qed

lemma para_at_element:
  assumes "para_at suf = Some g"
  shows "\<exists>r y. starts_ci (js ''<P'') suf \<and> suffix r (drop 2 suf) \<and> prefix [0x3E] r \<and>
           suffix y (tl r) \<and> starts_ci (js ''</P>'') y"
proof -
  from assms obtain r body where l: "literal_ci (js ''<p'') suf = Some r"
    and a: "after_gt r = Some body" and z: "lazy_until para_close body = Some g"
    by (auto simp: para_at_def split: option.splits)
  have o: "starts_ci (js ''<P'') suf"
    using para_at_opens [OF assms] by (simp add: starts_ci_def)
  have "length (js ''<p'') = 2" by (simp add: js_def)
  then have "r = drop 2 suf" using literal_ci_drop [OF l, symmetric] by simp
  then have s: "suffix (0x3E # body) (drop 2 suf)" using after_gt_Some [OF a] by simp
  obtain y where "suffix y body" and "para_close y" using lazy_until_Some [OF z] by blast
  then have "suffix y (tl (0x3E # body))" and "starts_ci (js ''</P>'') y"
    by (simp_all add: para_close_starts)
  with o s show ?thesis by (intro exI [of _ "0x3E # body"] exI [of _ y]) simp
qed

lemma no_heading_element:
  assumes "\<not> has_heading_element s"
  shows "first_match heading_at s = None"
proof (rule ccontr)
  assume "first_match heading_at s \<noteq> None"
  then obtain g where "first_match heading_at s = Some g" by auto
  then obtain suf where "suffix suf s" and "heading_at suf = Some g"
    using first_match_suffix by blast
  then have "has_heading_element s"
    unfolding has_heading_element_def element_occurs_iff
    using heading_at_element by blast
  with assms show False by simp
qed

lemma no_paragraph_element:
  assumes "\<not> has_paragraph_element s"
  shows "first_match para_at s = None"
proof (rule ccontr)
  assume "first_match para_at s \<noteq> None"
  then obtain g where "first_match para_at s = Some g" by auto
  then obtain suf where "suffix suf s" and "para_at suf = Some g"
    using first_match_suffix by blast
  then have "has_paragraph_element s"
    unfolding has_paragraph_element_def element_occurs_iff
    using para_at_element by blast
  with assms show False by simp
qed

lemma ascii_upper_digit: "ascii_upper c = 0x31 \<Longrightarrow> c = 0x31"
  "ascii_upper c = 0x32 \<Longrightarrow> c = 0x32"
  "ascii_upper c = 0x3E \<Longrightarrow> c = 0x3E"
  by (auto simp: ascii_upper_def split: if_splits)

lemma first_gt:
  "suffix (0x3E # r') xs \<Longrightarrow> \<exists>body. after_gt xs = Some body \<and> suffix r' body"
proof (induction xs)
  case Nil
  then show ?case by simp
next
  case (Cons x xs)
  show ?case
  proof (cases "x = 0x3E")
    case True
    from Cons.prems have "suffix r' xs"
      by (metis suffix_Cons suffix_ConsD list.inject)
    with True show ?thesis by (simp add: after_gt_def)
  next
    case False
    with Cons.prems have "suffix (0x3E # r') xs" by (auto simp: suffix_Cons)
    then obtain body where "after_gt xs = Some body" and "suffix r' body"
      using Cons.IH by blast
    with False show ?thesis by (simp add: after_gt_def)
  qed
qed

lemma lazy_until_complete:
  "suffix y body \<Longrightarrow> closes y \<Longrightarrow> \<exists>g. lazy_until closes body = Some g"
proof (induction body)
  case Nil
  then show ?case by simp
next
  case (Cons c cs)
  show ?case
  proof (cases "closes (c # cs)")
    case True
    then show ?thesis by simp
  next
    case False
    with Cons.prems have "suffix y cs" by (auto simp: suffix_Cons)
    then obtain g where "lazy_until closes cs = Some g" using Cons by blast
    with False show ?thesis by simp
  qed
qed

lemma first_match_complete:
  "suffix suf s \<Longrightarrow> m suf = Some g \<Longrightarrow> \<exists>g'. first_match m s = Some g'"
proof (induction s)
  case Nil
  then show ?case by simp
next
  case (Cons c cs)
  show ?case
  proof (cases "m (c # cs)")
    case None
    with Cons.prems have "suffix suf cs" by (auto simp: suffix_Cons)
    then obtain g' where "first_match m cs = Some g'" using Cons by blast
    with None show ?thesis by simp
  next
    case (Some a)
    then show ?thesis by simp
  qed
qed

lemma pattern_upper:
  "ascii_upper 0x3C = 0x3C" "ascii_upper 0x2F = 0x2F" "ascii_upper 0x68 = 0x48"
  "ascii_upper 0x70 = 0x50" "ascii_upper 0x3E = 0x3E"
  by (simp_all add: ascii_upper_def)

lemma starts_heading_open:
  assumes "starts_ci (js ''<H1'') suf \<or> starts_ci (js ''<H2'') suf"
  shows "\<exists>d. literal_ci (js ''<h'') suf = Some (d # drop 3 suf) \<and> is_h_digit d"
proof -
  from assms obtain a b d rest where s: "suf = a # b # d # rest"
    and u: "ascii_upper a = 0x3C" "ascii_upper b = 0x48"
    and "ascii_upper d = 0x31 \<or> ascii_upper d = 0x32"
    by (auto simp: starts_ci_def js_def prefix_def map_eq_Cons_conv)
  then have "is_h_digit d" using ascii_upper_digit by (auto simp: is_h_digit_def)
  moreover have "literal_ci (js ''<h'') suf = Some (d # drop 3 suf)"
    using s u by (simp add: js_def eq_ci_def pattern_upper)
  ultimately show ?thesis by blast
qed

lemma starts_heading_close:
  assumes "starts_ci (js ''</H1>'') y \<or> starts_ci (js ''</H2>'') y"
  shows "heading_close y"
proof -
  from assms obtain a b c d g rest where s: "y = a # b # c # d # g # rest"
    and u: "ascii_upper a = 0x3C" "ascii_upper b = 0x2F" "ascii_upper c = 0x48"
    and "ascii_upper d = 0x31 \<or> ascii_upper d = 0x32" and "ascii_upper g = 0x3E"
    by (auto simp: starts_ci_def js_def prefix_def map_eq_Cons_conv)
  then have "is_h_digit d" and "g = 0x3E"
    using ascii_upper_digit by (auto simp: is_h_digit_def)
  then show ?thesis
    using s u by (simp add: heading_close_def js_def eq_ci_def pattern_upper)
qed

lemma starts_para_open:
  assumes "starts_ci (js ''<P'') suf"
  shows "literal_ci (js ''<p'') suf = Some (drop 2 suf)"
proof -
  from assms obtain a b rest where s: "suf = a # b # rest"
    and u: "ascii_upper a = 0x3C" "ascii_upper b = 0x50"
    by (auto simp: starts_ci_def js_def prefix_def map_eq_Cons_conv)
  then show ?thesis by (simp add: js_def eq_ci_def pattern_upper)
qed

lemma starts_para_close:
  assumes "starts_ci (js ''</P>'') y"
  shows "para_close y"
proof -
  from assms obtain a b c g rest where s: "y = a # b # c # g # rest"
    and u: "ascii_upper a = 0x3C" "ascii_upper b = 0x2F" "ascii_upper c = 0x50"
      "ascii_upper g = 0x3E"
    by (auto simp: starts_ci_def js_def prefix_def map_eq_Cons_conv)
  then show ?thesis by (simp add: para_close_def js_def eq_ci_def pattern_upper)
qed

lemma heading_element_found:
  assumes "has_heading_element s"
  shows "\<exists>g. first_match heading_at s = Some g"
proof -
  from assms obtain suf r y where suf: "suffix suf s"
    and o: "starts_ci (js ''<H1'') suf \<or> starts_ci (js ''<H2'') suf"
    and r: "suffix r (drop 3 suf)" "prefix [0x3E] r" and y: "suffix y (tl r)"
    and c: "starts_ci (js ''</H1>'') y \<or> starts_ci (js ''</H2>'') y"
    unfolding has_heading_element_def element_occurs_iff by blast
  from r(2) have "r = 0x3E # tl r" by (cases r) simp_all
  with r(1) have "suffix (0x3E # tl r) (drop 3 suf)" by simp
  then obtain body where b: "after_gt (drop 3 suf) = Some body" and "suffix (tl r) body"
    using first_gt by blast
  with y have "suffix y body" by (meson suffix_order.trans)
  then obtain g where g: "lazy_until heading_close body = Some g"
    using lazy_until_complete starts_heading_close [OF c] by blast
  obtain d where "literal_ci (js ''<h'') suf = Some (d # drop 3 suf)" and "is_h_digit d"
    using starts_heading_open [OF o] by blast
  then have "heading_at suf = Some g" using b g by (simp add: heading_at_def)
  with suf show ?thesis by (rule first_match_complete)
qed

lemma paragraph_element_found:
  assumes "has_paragraph_element s"
  shows "\<exists>g. first_match para_at s = Some g"
proof -
  from assms obtain suf r y where suf: "suffix suf s"
    and o: "starts_ci (js ''<P'') suf"
    and r: "suffix r (drop 2 suf)" "prefix [0x3E] r" and y: "suffix y (tl r)"
    and c: "starts_ci (js ''</P>'') y"
    unfolding has_paragraph_element_def element_occurs_iff by blast
  from r(2) have "r = 0x3E # tl r" by (cases r) simp_all
  with r(1) have "suffix (0x3E # tl r) (drop 2 suf)" by simp
  then obtain body where b: "after_gt (drop 2 suf) = Some body" and "suffix (tl r) body"
    using first_gt by blast
  with y have "suffix y body" by (meson suffix_order.trans)
  then obtain g where g: "lazy_until para_close body = Some g"
    using lazy_until_complete starts_para_close [OF c] by blast
  have "para_at suf = Some g"
    using starts_para_open [OF o] b g by (simp add: para_at_def)
  with suf show ?thesis by (rule first_match_complete)
qed

lemma title_null_iff:
  "p_title (publish_payload aiData refs) = None \<longleftrightarrow>
     \<not> has_heading_element (p_content (publish_payload aiData refs))"
  using heading_element_found [of "p_content (publish_payload aiData refs)"]
    no_heading_element [of "p_content (publish_payload aiData refs)"]
  by (auto simp: publish_payload_def Let_def extract_field_def)

lemma description_null_iff:
  "p_description (publish_payload aiData refs) = None \<longleftrightarrow>
     \<not> has_paragraph_element (p_content (publish_payload aiData refs))"
  using paragraph_element_found [of "p_content (publish_payload aiData refs)"]
    no_paragraph_element [of "p_content (publish_payload aiData refs)"]
  by (auto simp: publish_payload_def Let_def extract_field_def)

text \<open>
  C10. \<^verbatim>\<open>publishArticle\<close> posts one payload. When the content it sends contains no
  \<^verbatim>\<open>h1\<close> or \<^verbatim>\<open>h2\<close> element, the title of that payload is \<^verbatim>\<open>null\<close>; when the
  content contains no \<^verbatim>\<open>p\<close> element, its description is \<^verbatim>\<open>null\<close>. No default string
  is put in their place, and the title and description of the rewrite result play no part.
  (By \<open>title_null_iff\<close> and \<open>description_null_iff\<close> these are the only contents for which
  \<^verbatim>\<open>null\<close> is sent.)
\<close>
theorem publishArticle_sends_null_metadata:
  "fst (publishArticle e i aiData refs) = [PostAI i (publish_payload aiData refs)] \<and>
   (\<not> has_heading_element (p_content (publish_payload aiData refs))
    \<longrightarrow> p_title (publish_payload aiData refs) = None) \<and>
   (\<not> has_paragraph_element (p_content (publish_payload aiData refs))
    \<longrightarrow> p_description (publish_payload aiData refs) = None)"
proof (intro conjI impI)
  show "fst (publishArticle e i aiData refs) = [PostAI i (publish_payload aiData refs)]"
    by (simp add: publishArticle_def call_def)
next
  assume "\<not> has_heading_element (p_content (publish_payload aiData refs))"
  then have "first_match heading_at (p_content (publish_payload aiData refs)) = None"
    by (rule no_heading_element)
  then show "p_title (publish_payload aiData refs) = None"
    by (simp add: publish_payload_def Let_def extract_field_def)
next
  assume "\<not> has_paragraph_element (p_content (publish_payload aiData refs))"
  then have "first_match para_at (p_content (publish_payload aiData refs)) = None"
    by (rule no_paragraph_element)
  then show "p_description (publish_payload aiData refs) = None"
    by (simp add: publish_payload_def Let_def extract_field_def)
qed

theorem publishArticle_sends_null_metadata_witness:
  "fst (publishArticle (example_env [] (Inl InferenceError)) 7
          (Structured \<lparr> title = js ''New Title'', description = js ''New description'',
                        content = js ''Plain text without markup.'' \<rparr>) []) =
     [PostAI 7 \<lparr> p_title = None, p_description = None,
                 p_content = js ''Plain text without markup.'', p_references = [] \<rparr>]"
proof -
  let ?a = "Structured \<lparr> title = js ''New Title'', description = js ''New description'',
                        content = js ''Plain text without markup.'' \<rparr>"
  have c: "p_content (publish_payload ?a []) = js ''Plain text without markup.''"
    and r: "p_references (publish_payload ?a []) = []"
    by (simp_all add: publish_payload_def Let_def)
  have h: "\<not> has_heading_element (js ''Plain text without markup.'')"
    and k: "\<not> has_paragraph_element (js ''Plain text without markup.'')"
    by code_simp+
  have "fst (publishArticle (example_env [] (Inl InferenceError)) 7 ?a []) =
          [PostAI 7 (publish_payload ?a [])] \<and>
        p_title (publish_payload ?a []) = None \<and> p_description (publish_payload ?a []) = None"
    using publishArticle_sends_null_metadata
      [of "example_env [] (Inl InferenceError)" 7 ?a "[]"] h k
    unfolding c by blast
  moreover have "publish_payload ?a [] =
    \<lparr> p_title = p_title (publish_payload ?a []), p_description = p_description (publish_payload ?a []),
      p_content = p_content (publish_payload ?a []), p_references = p_references (publish_payload ?a []) \<rparr>"
    by simp
  ultimately show ?thesis using c r by simp
qed

lemma publish_payload_example:
  "publish_payload (Raw (js ''<h1>Hello</h1><p>World</p>'')) [] =
     \<lparr> p_title = Some (js ''Hello''), p_description = Some (js ''World''),
       p_content = js ''<h1>Hello</h1><p>World</p>'', p_references = [] \<rparr>"
  by code_simp

lemma publish_payload_ignores_fields:
  "publish_payload (Structured r) refs = publish_payload (Raw (content r)) refs"
  by (simp add: publish_payload_def)

text \<open>
  C1. A run in which the rewrite result has the title \<^verbatim>\<open>New Title\<close> and the description
  \<^verbatim>\<open>New description\<close>: the payload that is posted carries the heading and the first
  paragraph of the content instead.
\<close>
theorem main_publishes_extracted_metadata:
  "snd (rewriteWithAI
          (example_env [js ''https://a.example/1'', js ''https://b.example/2'']
             (Inr (js ''TITLE: New Title\<newline>DESCRIPTION: New description\<newline>CONTENT: <h2>Heading</h2><p>Body</p>'')))
          (js ''Old text'') [[], []] [js ''https://a.example/1'', js ''https://b.example/2'']) =
     Inr (Some \<lparr> title = js ''New Title'', description = js ''New description'',
                  content = js ''<h2>Heading</h2><p>Body</p>'' \<rparr>) \<and>
   posted (fst (main
          (example_env [js ''https://a.example/1'', js ''https://b.example/2'']
             (Inr (js ''TITLE: New Title\<newline>DESCRIPTION: New description\<newline>CONTENT: <h2>Heading</h2><p>Body</p>''))))) =
     [(7, \<lparr> p_title = Some (js ''Heading''), p_description = Some (js ''Body''),
             p_content = js ''<h2>Heading</h2><p>Body</p>'',
             p_references = [js ''https://a.example/1'', js ''https://b.example/2''] \<rparr>)]"
  by code_simp

end
